theory Spec2Isabelle
  imports Main "HOL-Library.Sublist"
begin

section \<open>tools/process-codelab-source-file.py\<close>

text \<open>
  The script takes the path of a source file, reads the file line by line, drops the lines
  of every codelab section (the lines after a line holding the start pattern, up to and
  including the next line holding the end pattern) and writes the remaining lines back to
  the same file.

  A line is a \<^typ>\<open>string\<close> that keeps its terminator, as Python's iteration over a text
  file yields it. Python's \<^verbatim>\<open>p in line\<close> on strings is contiguous containment, which is
  \<^const>\<open>sublist\<close> on character lists.
\<close>

subsection \<open>The two patterns\<close>

definition codelabStartPattern :: string where
  "codelabStartPattern = ''// CODELAB: ''"

definition codelabEndPattern :: string where
  "codelabEndPattern = ''// CODELAB SECTION END''"

subsection \<open>The scan loop\<close>

text \<open>
  \<^verbatim>\<open>
  lines = []
  with open(file, 'rt') as infile:
      discard = False
      for line in infile:
          if discard:
            if codelabEndPattern in line:
              discard = False
          else:
            lines.append(line)
            if codelabStartPattern in line:
                  discard = True
  \<close>
  The two variables the loop updates are the state; \<open>loop_body\<close> is one iteration and
  \<open>scan\<close> the whole loop, started with \<open>discard = False\<close> and \<open>lines = []\<close>.
\<close>

record scan_state =
  discard :: bool
  lines :: "string list"

definition loop_body :: "scan_state \<Rightarrow> string \<Rightarrow> scan_state" where
  "loop_body st line =
     (if discard st then
        (if sublist codelabEndPattern line then st\<lparr>discard := False\<rparr> else st)
      else
        (let st' = st\<lparr>lines := lines st @ [line]\<rparr> in
         if sublist codelabStartPattern line then st'\<lparr>discard := True\<rparr> else st'))"

definition scan :: "string list \<Rightarrow> scan_state" where
  "scan infile = foldl loop_body \<lparr>discard = False, lines = []\<rparr> infile"

text \<open>The list \<open>lines\<close> the loop leaves behind, which the script then writes out.\<close>

definition filter_lines :: "string list \<Rightarrow> string list" where
  "filter_lines infile = lines (scan infile)"

text \<open>
  The value of \<open>discard\<close> at the moment the line with index \<open>i\<close> is read: the state of the
  loop after the \<open>i\<close> lines before it. The line is appended exactly when it is \<open>False\<close>.
\<close>

definition discard_at :: "string list \<Rightarrow> nat \<Rightarrow> bool" where
  "discard_at infile i = discard (scan (take i infile))"

subsection \<open>Files and the script\<close>

text \<open>
  A file is its text, one \<^typ>\<open>char\<close> for each byte. \<^verbatim>\<open>open(file, 'rt')\<close> leaves \<^verbatim>\<open>newline\<close>
  at its default \<^verbatim>\<open>None\<close>: on reading, Python's text layer turns every \<^verbatim>\<open>\r\n\<close> and every
  other \<^verbatim>\<open>\r\<close> into \<^verbatim>\<open>\n\<close> (universal newlines) before the program sees the text.
\<close>

fun universal_newlines :: "string \<Rightarrow> string" where
  "universal_newlines [] = []"
| "universal_newlines [c] = (if c = CHR 0x0D then [CHR ''\<newline>''] else [c])"
| "universal_newlines (c # d # cs) =
     (if c = CHR 0x0D \<and> d = CHR ''\<newline>'' then CHR ''\<newline>'' # universal_newlines cs
      else if c = CHR 0x0D then CHR ''\<newline>'' # universal_newlines (d # cs)
      else c # universal_newlines (d # cs))"

text \<open>
  Iterating over the translated text yields its lines, each with its line feed; only the
  last line may lack one.
\<close>

fun text_lines :: "string \<Rightarrow> string list" where
  "text_lines [] = []"
| "text_lines (c # cs) =
     (if c = CHR ''\<newline>'' then [c] # text_lines cs
      else (case text_lines cs of
              [] \<Rightarrow> [[c]]
            | l # ls \<Rightarrow> (c # l) # ls))"

text \<open>The lines that \<^verbatim>\<open>for line in infile\<close> yields for a file with the given text.\<close>

definition readlines :: "string \<Rightarrow> string list" where
  "readlines content = text_lines (universal_newlines content)"

text \<open>
  \<^verbatim>\<open>
  with open(file, 'w') as outfile:
      for line in lines:
          outfile.write(line)
  \<close>
  Opening with \<^verbatim>\<open>'w'\<close> truncates; every write appends to the text. With \<^verbatim>\<open>newline\<close> at its
  default, every \<^verbatim>\<open>\n\<close> written is turned into \<^verbatim>\<open>os.linesep\<close>. The script is run by the
  shell script \<^verbatim>\<open>process-codelab-source-files.sh\<close>; \<open>os_linesep\<close> is the value of
  \<^verbatim>\<open>os.linesep\<close> on POSIX systems, the line feed.
\<close>

definition os_linesep :: string where
  "os_linesep = [CHR ''\<newline>'']"

definition write_translate :: "string \<Rightarrow> string" where
  "write_translate s = concat (map (\<lambda>c. if c = CHR ''\<newline>'' then os_linesep else [c]) s)"

definition write_lines :: "string list \<Rightarrow> string" where
  "write_lines ls = foldl (\<lambda>outfile line. outfile @ write_translate line) [] ls"

type_synonym path = string

datatype io_event = OpenRead path | OpenWrite path

record world =
  files :: "path \<rightharpoonup> string"
  io_log :: "io_event list"

text \<open>
  \<^verbatim>\<open>sys.exit(msg)\<close> with a string raises \<^verbatim>\<open>SystemExit\<close>: the interpreter prints the string
  to standard error and exits with status 1. \<^verbatim>\<open>open\<close> on a path that does not exist raises
  \<^verbatim>\<open>FileNotFoundError\<close>, which nothing catches: the interpreter prints a traceback and
  exits with status 1.
\<close>

datatype error = SystemExit string | FileNotFoundError path

fun exit_status :: "error + unit \<Rightarrow> int" where
  "exit_status (Inr _) = 0"
| "exit_status (Inl _) = 1"

text \<open>
  \<^verbatim>\<open>
  if len(sys.argv) < 2:
      sys.exit("Error: Please specify the name of the file to process.")
  file = sys.argv[1]
  \<close>
  followed by the scan loop and the write-back. \<open>argv\<close> is \<^verbatim>\<open>sys.argv\<close>, the script's name
  first.
\<close>

definition main :: "string list \<Rightarrow> world \<Rightarrow> (error + unit) \<times> world" where
  "main argv w =
     (if length argv < 2 then
        (Inl (SystemExit ''Error: Please specify the name of the file to process.''), w)
      else
        (let file = argv ! 1 in
         case files w file of
           None \<Rightarrow> (Inl (FileNotFoundError file), w)
         | Some content \<Rightarrow>
             (let ls = filter_lines (readlines content) in
              (Inr (), w\<lparr>files := (files w)(file \<mapsto> write_lines ls),
                         io_log := io_log w @ [OpenRead file, OpenWrite file]\<rparr>))))"

subsection \<open>Words of the specification\<close>

text \<open>
  A start-marker line holds the start pattern, an end-marker line the end pattern. A file
  is well formed when every start-marker line has an end-marker line after it.
\<close>

definition is_start :: "string \<Rightarrow> bool" where
  "is_start line = sublist codelabStartPattern line"

definition is_end :: "string \<Rightarrow> bool" where
  "is_end line = sublist codelabEndPattern line"

definition well_formed :: "string list \<Rightarrow> bool" where
  "well_formed ls =
     (\<forall>i \<in> {0..<length ls}.
        is_start (ls ! i) \<longrightarrow> (\<exists>j \<in> {Suc i..<length ls}. is_end (ls ! j)))"

text \<open>
  The line with index \<open>s\<close> opens a section when it is a start-marker line that the loop reads
  with \<open>discard = False\<close>. Its matching end-marker line is the first end-marker line after
  it. A line is removed when it lies after a line that opens a section, up to and including
  the matching end-marker line.
\<close>

definition opens :: "string list \<Rightarrow> nat \<Rightarrow> bool" where
  "opens ls s = (s < length ls \<and> is_start (ls ! s) \<and> \<not> discard_at ls s)"

definition matching_end :: "string list \<Rightarrow> nat \<Rightarrow> nat \<Rightarrow> bool" where
  "matching_end ls s e =
     (s < e \<and> e < length ls \<and> is_end (ls ! e) \<and> (\<forall>k \<in> {Suc s..<e}. \<not> is_end (ls ! k)))"

definition removed :: "string list \<Rightarrow> nat \<Rightarrow> bool" where
  "removed ls i =
     (\<exists>s \<in> {0..<i}. opens ls s \<and> (\<exists>e \<in> {i..<length ls}. matching_end ls s e))"

text \<open>The five lines of the specification's example.\<close>

definition example_lines :: "string list" where
  "example_lines =
     [''A\<newline>'', ''// CODELAB: B\<newline>'', ''secret\<newline>'',
      ''// CODELAB SECTION END\<newline>'', ''C\<newline>'']"

section \<open>The loop, one line at a time\<close>

lemma loop_body_discard:
  "discard (loop_body st line) = (if discard st then \<not> is_end line else is_start line)"
  by (simp add: loop_body_def is_end_def is_start_def Let_def)

lemma loop_body_lines:
  "lines (loop_body st line) = lines st @ (if discard st then [] else [line])"
  by (simp add: loop_body_def Let_def)

lemma scan_Nil: "scan [] = \<lparr>discard = False, lines = []\<rparr>"
  by (simp add: scan_def)

lemma scan_snoc: "scan (ls @ [l]) = loop_body (scan ls) l"
  by (simp add: scan_def)

lemma scan_append: "scan (pre @ post) = foldl loop_body (scan pre) post"
  by (simp add: scan_def)

lemma discard_snoc:
  "discard (scan (ls @ [l])) = (if discard (scan ls) then \<not> is_end l else is_start l)"
  by (simp add: scan_snoc loop_body_discard)

lemma filter_lines_Nil: "filter_lines [] = []"
  by (simp add: filter_lines_def scan_Nil)

lemma filter_lines_snoc:
  "filter_lines (ls @ [l]) = filter_lines ls @ (if discard (scan ls) then [] else [l])"
  by (simp add: filter_lines_def scan_snoc loop_body_lines)

lemma scan_state_eqI:
  "discard (s :: scan_state) = discard t \<Longrightarrow> lines s = lines t \<Longrightarrow> s = t"
  by simp

lemma keeping_append:
  "\<not> discard (scan pre) \<Longrightarrow>
     discard (scan (pre @ post)) = discard (scan post) \<and>
     filter_lines (pre @ post) = filter_lines pre @ filter_lines post"
proof (induction post rule: rev_induct)
  case Nil
  then show ?case by (simp add: scan_Nil filter_lines_Nil)
next
  case (snoc l post)
  then have d: "discard (scan (pre @ post)) = discard (scan post)"
    and f: "filter_lines (pre @ post) = filter_lines pre @ filter_lines post"
    by simp_all
  have "discard (scan ((pre @ post) @ [l])) = discard (scan (post @ [l]))"
    by (simp only: discard_snoc d)
  moreover have "filter_lines ((pre @ post) @ [l]) = filter_lines pre @ filter_lines (post @ [l])"
    using filter_lines_snoc [of "pre @ post" l] filter_lines_snoc [of post l] d f by simp
  ultimately show ?case by simp
qed

lemma clean_keeps:
  "\<forall>l \<in> set ls. \<not> is_start l \<Longrightarrow> \<not> discard (scan ls) \<and> filter_lines ls = ls"
proof (induction ls rule: rev_induct)
  case Nil
  show ?case by (simp add: scan_Nil filter_lines_Nil)
next
  case (snoc l ls)
  then show ?case by (simp add: discard_snoc filter_lines_snoc)
qed

lemma write_translate_id: "write_translate s = s"
  by (induction s) (simp_all add: write_translate_def os_linesep_def)

lemma write_lines_concat: "write_lines ls = concat ls"
proof -
  have "foldl (\<lambda>outfile line. outfile @ line) acc ls = acc @ concat ls" for acc
    by (induction ls arbitrary: acc) simp_all
  then show ?thesis by (simp add: write_lines_def write_translate_id)
qed

lemma concat_text_lines: "concat (text_lines content) = content"
  by (induction content) (auto split: list.splits)

lemma concat_readlines: "concat (readlines content) = universal_newlines content"
  by (simp add: readlines_def concat_text_lines)

lemma universal_newlines_no_cr: "CHR 0x0D \<notin> set (universal_newlines content)"
  by (induction content rule: universal_newlines.induct) simp_all

lemma universal_newlines_id:
  "CHR 0x0D \<notin> set content \<Longrightarrow> universal_newlines content = content"
  by (induction content rule: universal_newlines.induct) auto

lemma universal_newlines_idem:
  "universal_newlines (universal_newlines content) = universal_newlines content"
  by (rule universal_newlines_id) (rule universal_newlines_no_cr)

lemma readlines_universal_newlines:
  "readlines (universal_newlines content) = readlines content"
  by (simp add: readlines_def universal_newlines_idem)

lemma discard_at_Suc:
  "i < length ls \<Longrightarrow>
     discard_at ls (Suc i) = (if discard_at ls i then \<not> is_end (ls ! i) else is_start (ls ! i))"
  by (simp add: discard_at_def take_Suc_conv_app_nth discard_snoc)

lemma discard_at_0: "\<not> discard_at ls 0"
  by (simp add: discard_at_def scan_Nil)

lemma discard_at_append:
  "i \<le> length ls \<Longrightarrow> discard_at (ls @ rest) i = discard_at ls i"
  by (simp add: discard_at_def)

lemma nths_cong_below:
  "(\<And>i. i < length xs \<Longrightarrow> (i \<in> A) = (i \<in> B)) \<Longrightarrow> nths xs A = nths xs B"
proof -
  assume h: "\<And>i. i < length xs \<Longrightarrow> (i \<in> A) = (i \<in> B)"
  have "filter (\<lambda>p. snd p \<in> A) (zip xs [0..<length xs]) = filter (\<lambda>p. snd p \<in> B) (zip xs [0..<length xs])"
    by (rule filter_cong) (auto dest!: set_zip_rightD simp: h)
  then show ?thesis by (simp add: nths_def)
qed

lemma filter_lines_nths: "filter_lines ls = nths ls {i. \<not> discard_at ls i}"
proof (induction ls rule: rev_induct)
  case Nil
  show ?case by (simp add: filter_lines_Nil)
next
  case (snoc l ls)
  have "nths ls {i. \<not> discard_at (ls @ [l]) i} = nths ls {i. \<not> discard_at ls i}"
    by (rule nths_cong_below) (simp add: discard_at_append)
  moreover have "discard_at (ls @ [l]) (length ls) = discard (scan ls)"
    by (simp add: discard_at_def)
  ultimately show ?case
    using snoc by (simp add: filter_lines_snoc nths_append)
qed

lemma subseq_filter_lines: "subseq (filter_lines ls) ls"
  by (induction ls rule: rev_induct)
     (auto simp: filter_lines_Nil filter_lines_snoc intro: list_emb_append_mono)

section \<open>Evaluation and the script as a whole\<close>

lemmas pattern_eval = is_start_def is_end_def codelabStartPattern_def codelabEndPattern_def
  sublist_Cons_right

lemmas scan_eval = filter_lines_def scan_def loop_body_def codelabStartPattern_def
  codelabEndPattern_def sublist_Cons_right

lemma main_run:
  assumes "files w file = Some content"
  shows "main (prog # file # extra) w =
           (Inr (), w\<lparr>files := (files w)(file \<mapsto> concat (filter_lines (readlines content))),
                      io_log := io_log w @ [OpenRead file, OpenWrite file]\<rparr>)"
  using assms by (simp add: main_def write_lines_concat)


lemma example_well_formed: "well_formed example_lines"
  by code_simp

section \<open>Sections of a well-formed file\<close>

lemma discard_at_region:
  "i \<le> length ls \<Longrightarrow>
     discard_at ls i = (\<exists>s<i. opens ls s \<and> (\<forall>k. s < k \<and> k < i \<longrightarrow> \<not> is_end (ls ! k)))"
proof (induction i)
  case 0
  show ?case by (simp add: discard_at_0)
next
  case (Suc i)
  then have i: "i < length ls" and
    IH: "discard_at ls i = (\<exists>s<i. opens ls s \<and> (\<forall>k. s < k \<and> k < i \<longrightarrow> \<not> is_end (ls ! k)))"
    by simp_all
  let ?R = "\<lambda>j. \<exists>s<j. opens ls s \<and> (\<forall>k. s < k \<and> k < j \<longrightarrow> \<not> is_end (ls ! k))"
  show ?case
  proof (cases "discard_at ls i")
    case True
    then have n: "\<not> opens ls i" by (simp add: opens_def)
    have "?R (Suc i) = (\<not> is_end (ls ! i))"
    proof
      assume "?R (Suc i)"
      then obtain s where s: "s < Suc i" "opens ls s"
        "\<forall>k. s < k \<and> k < Suc i \<longrightarrow> \<not> is_end (ls ! k)" by blast
      with n have "s < i" by (cases "s = i") auto
      with s(3) show "\<not> is_end (ls ! i)" by simp
    next
      assume e: "\<not> is_end (ls ! i)"
      from True IH obtain s where s: "s < i" "opens ls s"
        "\<forall>k. s < k \<and> k < i \<longrightarrow> \<not> is_end (ls ! k)" by blast
      have "\<forall>k. s < k \<and> k < Suc i \<longrightarrow> \<not> is_end (ls ! k)"
        using s(3) e less_Suc_eq by auto
      with s(1,2) show "?R (Suc i)" using less_SucI by blast
    qed
    with True i show ?thesis by (simp add: discard_at_Suc)
  next
    case False
    have "?R (Suc i) = is_start (ls ! i)"
    proof
      assume "?R (Suc i)"
      then obtain s where s: "s < Suc i" "opens ls s"
        "\<forall>k. s < k \<and> k < Suc i \<longrightarrow> \<not> is_end (ls ! k)" by blast
      have "s = i"
      proof (rule ccontr)
        assume "s \<noteq> i"
        with s(1) have "s < i" by simp
        moreover have "\<forall>k. s < k \<and> k < i \<longrightarrow> \<not> is_end (ls ! k)" using s(3) by simp
        ultimately have "discard_at ls i" using IH s(2) by blast
        with False show False by simp
      qed
      with s(2) show "is_start (ls ! i)" by (simp add: opens_def)
    next
      assume "is_start (ls ! i)"
      with False i have "opens ls i" by (simp add: opens_def)
      then show "?R (Suc i)" by auto
    qed
    with False i show ?thesis by (simp add: discard_at_Suc)
  qed
qed

lemma first_end_exists:
  assumes "s < j" "j < length ls" "is_end (ls ! j)"
  shows "\<exists>e. matching_end ls s e"
proof -
  let ?P = "\<lambda>e. s < e \<and> e < length ls \<and> is_end (ls ! e)"
  have P: "?P j" using assms by simp
  let ?e = "LEAST e. ?P e"
  have "?P ?e" using P by (rule LeastI)
  moreover have "\<not> is_end (ls ! k)" if "k \<in> {Suc s..<?e}" for k
  proof
    assume "is_end (ls ! k)"
    with that \<open>?P ?e\<close> have "?P k" by simp
    then have "?e \<le> k" by (rule Least_le)
    with that show False by simp
  qed
  ultimately show ?thesis unfolding matching_end_def by blast
qed

lemma well_formed_matching_end:
  assumes "well_formed ls" "s < length ls" "is_start (ls ! s)"
  shows "\<exists>e. matching_end ls s e"
proof -
  from assms obtain j where "j \<in> {Suc s..<length ls}" "is_end (ls ! j)"
    unfolding well_formed_def by fastforce
  then show ?thesis using first_end_exists [of s j ls] by simp
qed

lemma removed_iff_discard_at:
  assumes "well_formed ls" "i < length ls"
  shows "removed ls i = discard_at ls i"
proof
  assume "removed ls i"
  then obtain s e where s: "s < i" "opens ls s" and e: "i \<le> e" "matching_end ls s e"
    unfolding removed_def by auto
  from e have "\<forall>k. s < k \<and> k < i \<longrightarrow> \<not> is_end (ls ! k)"
    unfolding matching_end_def by auto
  with s show "discard_at ls i"
    using discard_at_region [of i ls] assms(2) by auto
next
  assume "discard_at ls i"
  then obtain s where s: "s < i" "opens ls s"
    and n: "\<forall>k. s < k \<and> k < i \<longrightarrow> \<not> is_end (ls ! k)"
    using discard_at_region [of i ls] assms(2) by auto
  from s(2) have "s < length ls" "is_start (ls ! s)" by (simp_all add: opens_def)
  from well_formed_matching_end [OF assms(1) this] obtain e where e: "matching_end ls s e"
    by blast
  have "i \<le> e"
  proof (rule ccontr)
    assume "\<not> i \<le> e"
    then have "s < e \<and> e < i" using e by (simp add: matching_end_def)
    with n have "\<not> is_end (ls ! e)" by blast
    with e show False by (simp add: matching_end_def)
  qed
  moreover from e have "e < length ls" by (simp add: matching_end_def)
  ultimately have "e \<in> {i..<length ls}" by simp
  with e have "\<exists>e \<in> {i..<length ls}. matching_end ls s e" by blast
  moreover from s(1) have "s \<in> {0..<i}" by simp
  ultimately show "removed ls i"
    unfolding removed_def using s(2) by blast
qed

section \<open>The claims\<close>

text \<open>
  C1, as stated, fails: a start-marker line inside a section is dropped with the rest of
  the section. The three lines below are well formed (each start-marker line has an
  end-marker line after it), the second is a start-marker line, and it is not written
  back.
\<close>

theorem nested_start_marker_dropped:
  "well_formed [''// CODELAB: A\<newline>'', ''// CODELAB: B\<newline>'', ''// CODELAB SECTION END\<newline>''] \<and>
   is_start ''// CODELAB: B\<newline>'' \<and>
   filter_lines [''// CODELAB: A\<newline>'', ''// CODELAB: B\<newline>'',
                 ''// CODELAB SECTION END\<newline>''] = [''// CODELAB: A\<newline>''] \<and>
   ''// CODELAB: B\<newline>'' \<notin>
     set (filter_lines [''// CODELAB: A\<newline>'', ''// CODELAB: B\<newline>'',
                        ''// CODELAB SECTION END\<newline>''])"
proof -
  have "well_formed [''// CODELAB: A\<newline>'', ''// CODELAB: B\<newline>'', ''// CODELAB SECTION END\<newline>'']"
    by code_simp
  moreover have "is_start ''// CODELAB: B\<newline>''"
    by (simp add: pattern_eval)
  moreover have "filter_lines [''// CODELAB: A\<newline>'', ''// CODELAB: B\<newline>'',
                        ''// CODELAB SECTION END\<newline>''] = [''// CODELAB: A\<newline>'']"
    by (simp add: scan_eval)
  ultimately show ?thesis by simp
qed

text \<open>
  C1, amended. In a well-formed file every line that opens a section (a start-marker line
  read with \<open>discard = False\<close>) has a matching end-marker line and is itself kept, and the
  output is the input without the removed lines: those after a line that opens a section,
  up to and including its matching end-marker line.
\<close>

theorem well_formed_output:
  assumes "well_formed ls"
  shows "filter_lines ls = nths ls {i. \<not> removed ls i} \<and>
         (\<forall>s. opens ls s \<longrightarrow> (\<exists>e. matching_end ls s e) \<and> \<not> removed ls s)"
proof -
  have "nths ls {i. \<not> removed ls i} = nths ls {i. \<not> discard_at ls i}"
    by (rule nths_cong_below) (simp add: removed_iff_discard_at [OF assms])
  then have a: "filter_lines ls = nths ls {i. \<not> removed ls i}"
    by (simp add: filter_lines_nths)
  have b: "(\<exists>e. matching_end ls s e) \<and> \<not> removed ls s" if "opens ls s" for s
  proof -
    from that have s: "s < length ls" "is_start (ls ! s)" "\<not> discard_at ls s"
      by (simp_all add: opens_def)
    from well_formed_matching_end [OF assms s(1,2)] s(3)
      removed_iff_discard_at [OF assms s(1)]
    show ?thesis by simp
  qed
  from a b show ?thesis by blast
qed

theorem well_formed_output_witness:
  "well_formed example_lines \<and>
   opens example_lines 1 \<and> matching_end example_lines 1 3 \<and>
   \<not> removed example_lines 1 \<and>
   filter_lines example_lines = nths example_lines {i. \<not> removed example_lines i}"
proof -
  have o: "opens example_lines 1" by code_simp
  have m: "matching_end example_lines 1 3" by code_simp
  from well_formed_output [OF example_well_formed] o m example_well_formed
  show ?thesis by blast
qed

text \<open>
  C2. On the five lines of the specification's example the loop leaves exactly the first
  line, the start-marker line and the last line.
\<close>

theorem example_output:
  "filter_lines [''A\<newline>'', ''// CODELAB: B\<newline>'', ''secret\<newline>'',
      ''// CODELAB SECTION END\<newline>'', ''C\<newline>'']
   = [''A\<newline>'', ''// CODELAB: B\<newline>'', ''C\<newline>'']"
  by (simp add: scan_eval)

text \<open>
  C3, as stated, fails: the file is read and written in text mode, so a file whose lines
  end in \<^verbatim>\<open>\r\n\<close> comes back with every line ending in \<^verbatim>\<open>\n\<close>. No line of the file below
  holds a pattern, the lines kept are the lines read, and yet the text written back is not
  the text that was there.
\<close>

theorem crlf_file_rewritten:
  "\<not> (\<exists>l \<in> set (readlines [CHR ''a'', CHR 0x0D, CHR ''\<newline>'', CHR ''b'', CHR 0x0D, CHR ''\<newline>'']).
        is_start l \<or> is_end l) \<and>
   files (snd (main [''process-codelab-source-file.py'', ''Main.kt'']
     \<lparr>files = [''Main.kt'' \<mapsto>
                 [CHR ''a'', CHR 0x0D, CHR ''\<newline>'', CHR ''b'', CHR 0x0D, CHR ''\<newline>'']],
      io_log = []\<rparr>)) ''Main.kt''
     = Some ''a\<newline>b\<newline>'' \<and>
   ''a\<newline>b\<newline>'' \<noteq> [CHR ''a'', CHR 0x0D, CHR ''\<newline>'', CHR ''b'', CHR 0x0D, CHR ''\<newline>'']"
proof -
  let ?c = "[CHR ''a'', CHR 0x0D, CHR ''\<newline>'', CHR ''b'', CHR 0x0D, CHR ''\<newline>'']"
  have r: "readlines ?c = [''a\<newline>'', ''b\<newline>'']"
    by (simp add: readlines_def)
  have c: "\<not> (\<exists>l \<in> set (readlines ?c). is_start l \<or> is_end l)"
    unfolding r by (simp add: pattern_eval)
  have k: "filter_lines [''a\<newline>'', ''b\<newline>''] = [''a\<newline>'', ''b\<newline>'']"
    by (simp add: scan_eval)
  have "files (snd (main [''process-codelab-source-file.py'', ''Main.kt'']
      \<lparr>files = [''Main.kt'' \<mapsto> ?c], io_log = []\<rparr>)) ''Main.kt'' = Some ''a\<newline>b\<newline>''"
    by (simp add: main_run [of _ _ ?c] r k)
  with c show ?thesis by simp
qed

text \<open>
  C3, amended. When no line of the file holds the start pattern or the end pattern, the
  loop keeps every line: the lines written back are the lines read, and the script ends
  normally. The text of the file is then its old text with every \<^verbatim>\<open>\r\n\<close> and \<^verbatim>\<open>\r\<close> turned
  into \<^verbatim>\<open>\n\<close>; no other file changes. If the old text has no carriage return, the file is
  what it was, byte for byte.
\<close>

theorem no_marker_keeps_lines:
  assumes "\<forall>l \<in> set (readlines content). \<not> is_start l \<and> \<not> is_end l"
    and "files w file = Some content"
  shows "filter_lines (readlines content) = readlines content \<and>
         fst (main (prog # file # extra) w) = Inr () \<and>
         files (snd (main (prog # file # extra) w))
           = (files w)(file \<mapsto> universal_newlines content) \<and>
         (CHR 0x0D \<notin> set content \<longrightarrow> files (snd (main (prog # file # extra) w)) = files w)"
proof -
  from assms(1) have k: "filter_lines (readlines content) = readlines content"
    using clean_keeps [of "readlines content"] by blast
  have f: "files (snd (main (prog # file # extra) w))
      = (files w)(file \<mapsto> universal_newlines content)"
    by (simp add: main_run [OF assms(2)] k concat_readlines)
  have "files (snd (main (prog # file # extra) w)) = files w" if "CHR 0x0D \<notin> set content"
  proof -
    have "(files w)(file \<mapsto> content) = files w"
      using assms(2) by (rule map_upd_triv)
    with f that show ?thesis by (simp add: universal_newlines_id)
  qed
  with k f show ?thesis by (simp add: main_run [OF assms(2)])
qed

theorem no_marker_keeps_lines_witness:
  "filter_lines (readlines ''val x = 1\<newline>val y = 2\<newline>'')
     = [''val x = 1\<newline>'', ''val y = 2\<newline>''] \<and>
   CHR 0x0D \<notin> set ''val x = 1\<newline>val y = 2\<newline>'' \<and>
   files (snd (main [''process-codelab-source-file.py'', ''Main.kt'']
     \<lparr>files = [''Main.kt'' \<mapsto> ''val x = 1\<newline>val y = 2\<newline>''], io_log = []\<rparr>))
     = [''Main.kt'' \<mapsto> ''val x = 1\<newline>val y = 2\<newline>'']"
proof -
  let ?c = "''val x = 1\<newline>val y = 2\<newline>''"
  let ?w = "\<lparr>files = [''Main.kt'' \<mapsto> ?c], io_log = []\<rparr>"
  have r: "readlines ?c = [''val x = 1\<newline>'', ''val y = 2\<newline>'']"
    by (simp add: readlines_def)
  have c: "\<forall>l \<in> set (readlines ?c). \<not> is_start l \<and> \<not> is_end l"
    unfolding r by (simp add: pattern_eval)
  have f: "files ?w ''Main.kt'' = Some ?c" by simp
  have n: "CHR 0x0D \<notin> set ?c" by simp
  from no_marker_keeps_lines [OF c f, of "''process-codelab-source-file.py''" "[]"] n
  have "filter_lines (readlines ?c) = readlines ?c"
    and "files (snd (main [''process-codelab-source-file.py'', ''Main.kt''] ?w)) = files ?w"
    by blast+
  then show ?thesis using r n by simp
qed

text \<open>
  C4, as stated, fails: an end-marker line that the loop reads with \<open>discard = False\<close> is
  appended like any other line. Here the second line holds the end pattern and is written
  back.
\<close>

theorem stray_end_marker_kept:
  "is_end ''// CODELAB SECTION END\<newline>'' \<and>
   ''// CODELAB SECTION END\<newline>'' \<in>
     set (filter_lines [''A\<newline>'', ''// CODELAB SECTION END\<newline>''])"
  by (simp add: pattern_eval scan_eval)

text \<open>
  C4, amended. An end-marker line read with \<open>discard = True\<close> is never appended: the kept
  lines after it are the kept lines before it, \<open>discard\<close> is \<open>False\<close> again, and the lines
  after it are scanned as a file of their own.
\<close>

theorem end_marker_while_discarding:
  assumes "discard (scan pre)" and "is_end e"
  shows "filter_lines (pre @ [e]) = filter_lines pre \<and>
         \<not> discard (scan (pre @ [e])) \<and>
         filter_lines (pre @ e # post) = filter_lines pre @ filter_lines post"
proof -
  have a: "filter_lines (pre @ [e]) = filter_lines pre"
    using assms(1) by (simp add: filter_lines_snoc)
  have b: "\<not> discard (scan (pre @ [e]))"
    using assms by (simp add: discard_snoc)
  have "filter_lines ((pre @ [e]) @ post) = filter_lines (pre @ [e]) @ filter_lines post"
    using keeping_append [OF b] by blast
  with a b show ?thesis by simp
qed

theorem end_marker_while_discarding_witness:
  "discard (scan [''// CODELAB: B\<newline>'', ''secret\<newline>'']) \<and>
   is_end ''// CODELAB SECTION END\<newline>'' \<and>
   filter_lines [''// CODELAB: B\<newline>'', ''secret\<newline>'',
                 ''// CODELAB SECTION END\<newline>'', ''C\<newline>'']
     = [''// CODELAB: B\<newline>'', ''C\<newline>'']"
proof -
  have d: "discard (scan [''// CODELAB: B\<newline>'', ''secret\<newline>''])"
    by (simp add: scan_eval)
  have e: "is_end ''// CODELAB SECTION END\<newline>''"
    by (simp add: pattern_eval)
  have p: "filter_lines [''// CODELAB: B\<newline>'', ''secret\<newline>''] = [''// CODELAB: B\<newline>'']"
    by (simp add: scan_eval)
  have q: "filter_lines [''C\<newline>''] = [''C\<newline>'']"
    by (simp add: scan_eval)
  from end_marker_while_discarding [OF d e, of "[''C\<newline>'']"] d e p q
  show ?thesis by simp
qed



text \<open>
  C6. Every index of the input is either kept (the loop reads the line with
  \<open>discard = False\<close>) or discarded, never both, and the output is the list of the kept
  lines in their order: the numbers of kept and of discarded lines add up to the length of
  the input, and the output is a subsequence of the input.
\<close>

theorem kept_lines_in_order:
  "filter_lines ls = nths ls {i. \<not> discard_at ls i} \<and>
   subseq (filter_lines ls) ls \<and>
   length (filter_lines ls) + card {i. i < length ls \<and> discard_at ls i} = length ls"
proof -
  let ?K = "{i. i < length ls \<and> \<not> discard_at ls i}"
  let ?D = "{i. i < length ls \<and> discard_at ls i}"
  have "length (filter_lines ls) = card ?K"
    by (simp add: filter_lines_nths length_nths)
  moreover have "?K \<union> ?D = {..<length ls}" "?K \<inter> ?D = {}" by auto
  then have "card ?K + card ?D = length ls"
    using card_Un_disjoint [of ?K ?D] by simp
  ultimately show ?thesis
    using filter_lines_nths [of ls] subseq_filter_lines [of ls] by simp
qed

text \<open>
  C9. With fewer than two entries in \<open>argv\<close> (the script's name alone) the script exits
  through \<open>SystemExit\<close> with the message, which the interpreter prints to standard error
  with exit status 1; the world is unchanged: no file was opened, none was written.
\<close>

theorem missing_argument_exits:
  assumes "length argv < 2"
  shows "main argv w =
           (Inl (SystemExit ''Error: Please specify the name of the file to process.''), w) \<and>
         exit_status (fst (main argv w)) \<noteq> 0"
  using assms by (simp add: main_def)

theorem missing_argument_exits_witness:
  "length [''process-codelab-source-file.py''] < 2 \<and>
   main [''process-codelab-source-file.py''] \<lparr>files = Map.empty, io_log = []\<rparr> =
     (Inl (SystemExit ''Error: Please specify the name of the file to process.''),
      \<lparr>files = Map.empty, io_log = []\<rparr>)"
  using missing_argument_exits [of "[''process-codelab-source-file.py'']"
      "\<lparr>files = Map.empty, io_log = []\<rparr>"]
  by simp

text \<open>
  C7, as stated, fails for a line that holds both patterns: read with \<open>discard = True\<close>,
  it is tested for the end pattern like every other line and sets \<open>discard\<close> to \<open>False\<close>,
  so it does change the state of the scan.
\<close>

theorem start_and_end_marker_while_discarding:
  "discard (scan [''// CODELAB: A\<newline>'']) \<and>
   is_start ''// CODELAB: B // CODELAB SECTION END\<newline>'' \<and>
   \<not> discard (scan [''// CODELAB: A\<newline>'', ''// CODELAB: B // CODELAB SECTION END\<newline>''])"
  by (simp add: pattern_eval scan_eval)

text \<open>
  C7, amended. A start-marker line read with \<open>discard = True\<close> is never appended, and the
  start pattern is not tested there: the state after the line depends on the end pattern
  alone. If the line does not hold the end pattern it has no effect at all: the scan of the
  file with the line is the scan of the file without it.
\<close>

theorem start_marker_while_discarding:
  assumes "discard (scan pre)" and "is_start l"
  shows "filter_lines (pre @ [l]) = filter_lines pre \<and>
         discard (scan (pre @ [l])) = (\<not> is_end l) \<and>
         (is_end l \<or> scan (pre @ l # post) = scan (pre @ post))"
proof -
  have a: "filter_lines (pre @ [l]) = filter_lines pre"
    using assms(1) by (simp add: filter_lines_snoc)
  have b: "discard (scan (pre @ [l])) = (\<not> is_end l)"
    using assms(1) by (simp add: discard_snoc)
  have c: "scan (pre @ l # post) = scan (pre @ post)" if "\<not> is_end l"
  proof -
    have "scan (pre @ [l]) = scan pre"
      using a b assms(1) that by (intro scan_state_eqI) (simp_all add: filter_lines_def)
    then have "foldl loop_body (scan (pre @ [l])) post = foldl loop_body (scan pre) post"
      by simp
    then show ?thesis
      using scan_append [of "pre @ [l]" post] scan_append [of pre post] by simp
  qed
  from a b c show ?thesis by blast
qed

theorem start_marker_while_discarding_witness:
  "discard (scan [''// CODELAB: A\<newline>'', ''secret\<newline>'']) \<and>
   is_start ''// CODELAB: B\<newline>'' \<and>
   filter_lines [''// CODELAB: A\<newline>'', ''secret\<newline>'', ''// CODELAB: B\<newline>'']
     = [''// CODELAB: A\<newline>''] \<and>
   discard (scan [''// CODELAB: A\<newline>'', ''secret\<newline>'', ''// CODELAB: B\<newline>''])"
proof -
  have d: "discard (scan [''// CODELAB: A\<newline>'', ''secret\<newline>''])"
    by (simp add: scan_eval)
  have s: "is_start ''// CODELAB: B\<newline>''"
    by (simp add: pattern_eval)
  have e: "\<not> is_end ''// CODELAB: B\<newline>''"
    by (simp add: pattern_eval)
  have p: "filter_lines [''// CODELAB: A\<newline>'', ''secret\<newline>''] = [''// CODELAB: A\<newline>'']"
    by (simp add: scan_eval)
  from start_marker_while_discarding [OF d s, of "[]"] d s e p
  show ?thesis by simp
qed

text \<open>
  C8. Run on a file none of whose lines holds either pattern (as a file that has been
  filtered and has no marker left), and then run again, the script ends normally and
  leaves every file as the first run left it.
\<close>

theorem second_run_on_clean_file:
  assumes "\<forall>l \<in> set (readlines content). \<not> is_start l \<and> \<not> is_end l"
    and "files w file = Some content"
  shows "fst (main (prog # file # extra) (snd (main (prog # file # extra) w))) = Inr () \<and>
         files (snd (main (prog # file # extra) (snd (main (prog # file # extra) w))))
           = files (snd (main (prog # file # extra) w))"
proof -
  let ?argv = "prog # file # extra"
  let ?w1 = "snd (main ?argv w)"
  let ?u = "universal_newlines content"
  have k: "filter_lines (readlines content) = readlines content"
    using assms(1) clean_keeps [of "readlines content"] by blast
  have f1: "files ?w1 = (files w)(file \<mapsto> ?u)"
    by (simp add: main_run [OF assms(2)] k concat_readlines)
  then have s1: "files ?w1 file = Some ?u" by simp
  have k1: "filter_lines (readlines ?u) = readlines ?u"
    using k by (simp add: readlines_universal_newlines)
  have "files (snd (main ?argv ?w1)) = (files ?w1)(file \<mapsto> ?u)"
    by (simp add: main_run [OF s1] k1 concat_readlines universal_newlines_idem)
  also have "\<dots> = files ?w1"
    using s1 by (rule map_upd_triv)
  finally have "files (snd (main ?argv ?w1)) = files ?w1" .
  moreover have "fst (main ?argv ?w1) = Inr ()"
    by (simp add: main_run [OF s1])
  ultimately show ?thesis by simp
qed

theorem second_run_on_clean_file_witness:
  "files (snd (main [''process-codelab-source-file.py'', ''Main.kt'']
           (snd (main [''process-codelab-source-file.py'', ''Main.kt'']
              \<lparr>files = [''Main.kt'' \<mapsto> ''val x = 1\<newline>val y = 2\<newline>''], io_log = []\<rparr>))))
   = files (snd (main [''process-codelab-source-file.py'', ''Main.kt'']
              \<lparr>files = [''Main.kt'' \<mapsto> ''val x = 1\<newline>val y = 2\<newline>''], io_log = []\<rparr>))"
proof -
  let ?c = "''val x = 1\<newline>val y = 2\<newline>''"
  let ?w = "\<lparr>files = [''Main.kt'' \<mapsto> ?c], io_log = []\<rparr>"
  have r: "readlines ?c = [''val x = 1\<newline>'', ''val y = 2\<newline>'']"
    by (simp add: readlines_def)
  have c: "\<forall>l \<in> set (readlines ?c). \<not> is_start l \<and> \<not> is_end l"
    unfolding r by (simp add: pattern_eval)
  have f: "files ?w ''Main.kt'' = Some ?c" by simp
  from second_run_on_clean_file [OF c f, of "''process-codelab-source-file.py''" "[]"]
  show ?thesis by blast
qed

text \<open>
  C10. The example of the specification is well formed; what one pass leaves of it still
  has a start-marker line and no end-marker line, so a second pass drops the line after the
  start-marker line and gives a different result.
\<close>

theorem not_idempotent_on_example:
  "well_formed example_lines \<and>
   (\<exists>l \<in> set (filter_lines example_lines). is_start l) \<and>
   \<not> (\<exists>l \<in> set (filter_lines example_lines). is_end l) \<and>
   filter_lines example_lines = [''A\<newline>'', ''// CODELAB: B\<newline>'', ''C\<newline>''] \<and>
   filter_lines (filter_lines example_lines) = [''A\<newline>'', ''// CODELAB: B\<newline>''] \<and>
   filter_lines (filter_lines example_lines) \<noteq> filter_lines example_lines"
proof -
  have o: "filter_lines example_lines = [''A\<newline>'', ''// CODELAB: B\<newline>'', ''C\<newline>'']"
    by (simp add: example_lines_def scan_eval)
  have t: "filter_lines [''A\<newline>'', ''// CODELAB: B\<newline>'', ''C\<newline>'']
             = [''A\<newline>'', ''// CODELAB: B\<newline>'']"
    by (simp add: scan_eval)
  have s: "\<exists>l \<in> set [''A\<newline>'', ''// CODELAB: B\<newline>'', ''C\<newline>'']. is_start l"
    by (simp add: pattern_eval)
  have e: "\<not> (\<exists>l \<in> set [''A\<newline>'', ''// CODELAB: B\<newline>'', ''C\<newline>'']. is_end l)"
    by (simp add: pattern_eval)
  show ?thesis
    using example_well_formed s e t unfolding o by simp
qed

theorem not_idempotent_on_example_witness:
  "filter_lines (filter_lines example_lines) \<noteq> filter_lines example_lines"
  using not_idempotent_on_example by blast

end
